theory Spec2Isabelle
  imports Complex_Main "HOL-Library.Sublist" "HOL-Library.Multiset"
begin

section \<open>Risk slider (UserInputPage.js)\<close>

text \<open>
  \<^verbatim>\<open>
  const getRiskLevel = (value) => {
    if (value < 33) return 'low';
    if (value < 67) return 'medium';
    return 'high';
  };
  \<close>
  The slider hands the function \<open>Number(e.target.value)\<close>, an integer between 0 and 100;
  the value is modelled as an \<open>int\<close>, the result as the returned string.
\<close>

definition getRiskLevel :: "int \<Rightarrow> string" where
  "getRiskLevel v = (if v < 33 then ''low'' else if v < 67 then ''medium'' else ''high'')"

section \<open>Resource links (VisualPage.js, generateResources)\<close>

text \<open>
  A JavaScript string is modelled as a \<open>string\<close> whose characters are UTF-16 code units
  below 256. \<open>toLowerCase\<close> maps the upper-case letters of that range (A to Z, and the
  Latin-1 capitals U+00C0 to U+00DE other than the multiplication sign U+00D7) to the code
  unit 32 places higher and leaves every other code unit alone.
  \<open>name.includes(keyword)\<close> is \<^const>\<open>sublist\<close>: the keyword occurs as a contiguous
  run of the name.
\<close>

definition toLowerCase_char :: "char \<Rightarrow> char" where
  "toLowerCase_char c =
     (let n = (of_char c :: nat)
      in if (65 \<le> n \<and> n \<le> 90) \<or> (192 \<le> n \<and> n \<le> 222 \<and> n \<noteq> 215)
         then char_of (n + 32) else c)"

definition toLowerCase :: "string \<Rightarrow> string" where
  "toLowerCase s = map toLowerCase_char s"

definition str_includes :: "string \<Rightarrow> string \<Rightarrow> bool" where
  "str_includes s keyword = sublist keyword s"

record resource =
  title :: string
  url :: string

text \<open>
  The object literal \<open>resourceMap\<close>. None of its keys is an array index (\<open>401k\<close> is not a
  canonical number), so \<open>Object.entries\<close> lists the properties in the order in which the
  literal declares them; the association list keeps that order.
\<close>

definition resourceMap :: "(string \<times> resource list) list" where
  "resourceMap = [
   (''emergency'',
     [\<lparr>title = ''Emergency Fund Calculator'',
       url = ''https://www.nerdwallet.com/article/banking/emergency-fund-calculator''\<rparr>,
      \<lparr>title = ''How to Build Emergency Savings'',
       url = ''https://www.investopedia.com/terms/e/emergency_fund.asp''\<rparr>]),
   (''budget'',
     [\<lparr>title = ''Create a Budget Guide'',
       url = ''https://www.consumer.gov/articles/1002-making-budget''\<rparr>,
      \<lparr>title = ''50/30/20 Budget Rule'',
       url = ''https://www.nerdwallet.com/article/finance/nerdwallet-budget-calculator''\<rparr>]),
   (''401k'',
     [\<lparr>title = ''401(k) Basics'',
       url = ''https://www.investopedia.com/terms/1/401kplan.asp''\<rparr>,
      \<lparr>title = ''Maximize Your 401(k)'',
       url = ''https://www.fidelity.com/viewpoints/retirement/how-much-to-save''\<rparr>]),
   (''ira'',
     [\<lparr>title = ''IRA Comparison Guide'',
       url = ''https://www.irs.gov/retirement-plans/individual-retirement-arrangements-iras''\<rparr>,
      \<lparr>title = ''Roth vs Traditional IRA'',
       url = ''https://www.investopedia.com/roth-vs-traditional-ira-5088005''\<rparr>]),
   (''debt'',
     [\<lparr>title = ''Debt Payoff Strategies'',
       url = ''https://www.nerdwallet.com/article/finance/pay-off-debt''\<rparr>,
      \<lparr>title = ''Debt Avalanche vs Snowball'',
       url = ''https://www.investopedia.com/articles/personal-finance/080716/debt-avalanche-vs-debt-snowball-which-best-you.asp''\<rparr>]),
   (''credit'',
     [\<lparr>title = ''Build Your Credit Score'',
       url = ''https://www.experian.com/blogs/ask-experian/credit-education/improving-credit/improve-credit-score/''\<rparr>,
      \<lparr>title = ''Free Credit Report'',
       url = ''https://www.annualcreditreport.com/''\<rparr>]),
   (''invest'',
     [\<lparr>title = ''Investing for Beginners'',
       url = ''https://www.investopedia.com/articles/basics/06/invest1000.asp''\<rparr>,
      \<lparr>title = ''Index Fund Guide'',
       url = ''https://www.bogleheads.org/wiki/Getting_started''\<rparr>]),
   (''stock'',
     [\<lparr>title = ''Stock Market Basics'',
       url = ''https://www.investopedia.com/terms/s/stockmarket.asp''\<rparr>,
      \<lparr>title = ''How to Buy Stocks'',
       url = ''https://www.nerdwallet.com/article/investing/how-to-buy-stocks''\<rparr>]),
   (''save'',
     [\<lparr>title = ''High-Yield Savings Accounts'',
       url = ''https://www.bankrate.com/banking/savings/best-high-yield-interests-savings-accounts/''\<rparr>,
      \<lparr>title = ''Savings Strategies'',
       url = ''https://www.consumerfinance.gov/consumer-tools/save-as-you-go/''\<rparr>]),
   (''house'',
     [\<lparr>title = ''First-Time Homebuyer Guide'',
       url = ''https://www.hud.gov/topics/buying_a_home''\<rparr>,
      \<lparr>title = ''Mortgage Calculator'',
       url = ''https://www.bankrate.com/calculators/mortgages/mortgage-calculator.aspx''\<rparr>]),
   (''mortgage'',
     [\<lparr>title = ''Mortgage Basics'',
       url = ''https://www.consumerfinance.gov/owning-a-home/''\<rparr>,
      \<lparr>title = ''Compare Mortgage Rates'',
       url = ''https://www.bankrate.com/mortgages/mortgage-rates/''\<rparr>]),
   (''tax'',
     [\<lparr>title = ''Tax Planning Strategies'',
       url = ''https://www.irs.gov/individuals''\<rparr>,
      \<lparr>title = ''Tax Deductions Guide'',
       url = ''https://www.investopedia.com/articles/tax/09/tax-deductions.asp''\<rparr>]),
   (''insurance'',
     [\<lparr>title = ''Insurance Basics'',
       url = ''https://www.insurance.com/insurance-basics.aspx''\<rparr>,
      \<lparr>title = ''Life Insurance Guide'',
       url = ''https://www.policygenius.com/life-insurance/''\<rparr>]),
   (''retire'',
     [\<lparr>title = ''Retirement Planning'',
       url = ''https://www.ssa.gov/benefits/retirement/''\<rparr>,
      \<lparr>title = ''Retirement Calculator'',
       url = ''https://www.bankrate.com/retirement/calculators/retirement-plan-calculator/''\<rparr>]),
   (''loan'',
     [\<lparr>title = ''Student Loan Options'',
       url = ''https://studentaid.gov/''\<rparr>,
      \<lparr>title = ''Loan Refinancing'',
       url = ''https://www.nerdwallet.com/refinancing-student-loans''\<rparr>])]"

definition defaultResources :: "resource list" where
  "defaultResources =
     [\<lparr>title = ''Personal Finance Guide'',
       url = ''https://www.investopedia.com/personal-finance-4427760''\<rparr>,
      \<lparr>title = ''Financial Planning Basics'',
       url = ''https://www.nerdwallet.com/article/finance/financial-planning''\<rparr>]"

text \<open>
  The \<open>for (const [keyword, resources] of Object.entries(resourceMap))\<close> loop: the first
  entry whose keyword the name includes is returned from inside the loop.
\<close>

primrec findMatching :: "(string \<times> resource list) list \<Rightarrow> string \<Rightarrow> resource list option" where
  "findMatching [] name = None"
| "findMatching (e # es) name =
     (if str_includes name (fst e) then Some (snd e) else findMatching es name)"

definition generateResources :: "string \<Rightarrow> string \<Rightarrow> resource list" where
  "generateResources actionName actionId =
     (let name = toLowerCase actionName
      in case findMatching resourceMap name of
           Some resources \<Rightarrow> resources
         | None \<Rightarrow> defaultResources)"


section \<open>Visualization nodes (VisualPage.js, transformRecommendations)\<close>

text \<open>
  A recommendation as the engine's JSON response carries it. \<open>description\<close>,
  \<open>personalized_description\<close> and \<open>prerequisites\<close> may be absent (\<open>None\<close>).
\<close>

record recommendation =
  action_id :: string
  name :: string
  description :: "string option"
  personalized_description :: "string option"
  prerequisites :: "string list option"

text \<open>
  The object the function returns for each recommendation. Its fields \<open>id\<close>, \<open>name\<close> and
  \<open>description\<close> are written \<open>node_id\<close>, \<open>node_name\<close> and \<open>node_description\<close> to keep them
  apart from the recommendation's fields and from the identity function of HOL.
\<close>

record vnode =
  node_id :: string
  node_name :: string
  node_description :: string
  resources :: "resource list"
  dependencies :: "string list"

text \<open>
  \<open>[...new Set(xs)]\<close>: a \<open>Set\<close> keeps its elements in insertion order and ignores the
  insertion of an element it already holds, so the spread lists the first occurrences in
  order.
\<close>

definition set_add :: "'a list \<Rightarrow> 'a \<Rightarrow> 'a list" where
  "set_add s x = (if x \<in> set s then s else s @ [x])"

definition new_Set :: "'a list \<Rightarrow> 'a list" where
  "new_Set xs = foldl set_add [] xs"

text \<open>\<open>a || b\<close> on strings that may be absent: the empty string and the absent value are falsy.\<close>

definition str_or :: "string option \<Rightarrow> string option \<Rightarrow> string option" where
  "str_or a b = (case a of Some s \<Rightarrow> (if s \<noteq> [] then a else b) | None \<Rightarrow> b)"

text \<open>\<open>index > 0 ? [recs[index - 1].action_id] : []\<close>\<close>

definition sequentialDeps :: "recommendation list \<Rightarrow> nat \<Rightarrow> string list" where
  "sequentialDeps recs index = (if index > 0 then [action_id (recs ! (index - 1))] else [])"

text \<open>
  \<open>(rec.prerequisites || []).map(prereqName => ...).filter(Boolean)\<close>: each prerequisite
  name is looked up among all recommendations (\<open>find\<close> returns the first match), a name
  that matches none gives \<open>null\<close>, and \<open>filter(Boolean)\<close> drops the \<open>null\<close>s and the empty
  strings.
\<close>

definition engineDeps :: "recommendation list \<Rightarrow> recommendation \<Rightarrow> string list" where
  "engineDeps allRecs rec =
     (let mapped = map (\<lambda>prereqName.
                     case find (\<lambda>r. name r = prereqName) allRecs of
                       Some depRec \<Rightarrow> Some (action_id depRec)
                     | None \<Rightarrow> None)
                   (case prerequisites rec of Some ps \<Rightarrow> ps | None \<Rightarrow> [])
      in concat (map (\<lambda>m. case m of Some i \<Rightarrow> (if i \<noteq> [] then [i] else []) | None \<Rightarrow> []) mapped))"

definition stageIds :: "recommendation list \<Rightarrow> string set" where
  "stageIds recs = set (map action_id recs)"

definition relevantEngineDeps :: "recommendation list \<Rightarrow> recommendation list \<Rightarrow> recommendation \<Rightarrow> string list" where
  "relevantEngineDeps recs allRecs rec = filter (\<lambda>i. i \<in> stageIds recs) (engineDeps allRecs rec)"

definition allDeps :: "recommendation list \<Rightarrow> recommendation list \<Rightarrow> nat \<Rightarrow> recommendation \<Rightarrow> string list" where
  "allDeps recs allRecs index rec =
     new_Set (sequentialDeps recs index @ relevantEngineDeps recs allRecs rec)"

definition transformNode :: "recommendation list \<Rightarrow> recommendation list \<Rightarrow> nat \<times> recommendation \<Rightarrow> vnode" where
  "transformNode recs allRecs p =
     (case p of (index, rec) \<Rightarrow>
        \<lparr>node_id = action_id rec,
         node_name = name rec,
         node_description =
           (case str_or (str_or (description rec) (personalized_description rec))
                        (Some ''No description available'')
            of Some d \<Rightarrow> d | None \<Rightarrow> ''No description available''),
         resources = generateResources (name rec) (action_id rec),
         dependencies = allDeps recs allRecs index rec\<rparr>)"

text \<open>\<open>recs.map((rec, index) => ...)\<close>: every recommendation is paired with its index.\<close>

definition transformRecommendations :: "recommendation list \<Rightarrow> recommendation list \<Rightarrow> vnode list" where
  "transformRecommendations recs allRecs = map (transformNode recs allRecs) (enumerate 0 recs)"

section \<open>Engine request (VisualPage.js, fetchRecommendations)\<close>

text \<open>
  A JavaScript value as a profile field read from the user's stored document can hold it.
  Numbers are the finite decimal ones (a rational) or \<open>NaN\<close>; \<open>JObject\<close> stands for any
  object or array, of which only its being truthy matters here.
\<close>

datatype jsval = Undefined | Null | JBool bool | JNum rat | JNaN | JStr string | JObject

fun truthy :: "jsval \<Rightarrow> bool" where
  "truthy Undefined = False"
| "truthy Null = False"
| "truthy (JBool b) = b"
| "truthy (JNum n) = (n \<noteq> 0)"
| "truthy JNaN = False"
| "truthy (JStr s) = (s \<noteq> [])"
| "truthy JObject = True"

definition js_or :: "jsval \<Rightarrow> jsval \<Rightarrow> jsval" where
  "js_or a b = (if truthy a then a else b)"

text \<open>
  \<open>obj?.field\<close>: \<open>undefined\<close> when the object is \<open>null\<close> or \<open>undefined\<close> (\<open>None\<close>) or has no
  such property.
\<close>

type_synonym jsobject = "string \<rightharpoonup> jsval"

definition opt_get :: "jsobject option \<Rightarrow> string \<Rightarrow> jsval" where
  "opt_get obj field =
     (case obj of
        None \<Rightarrow> Undefined
      | Some m \<Rightarrow> (case m field of None \<Rightarrow> Undefined | Some v \<Rightarrow> v))"

record engineProfile =
  age_range :: jsval
  location :: jsval
  property_value :: jsval
  vehicle_value :: jsval
  investments :: jsval
  debt :: jsval
  monthly_salary :: jsval
  has_dependents :: jsval
  employment_stability :: rat

record engineQuery =
  risk_tolerance :: jsval
  current_situation :: jsval
  goal :: jsval

datatype fetch_error = UserNotAuthenticated

text \<open>
  The part of \<open>fetchRecommendations\<close> up to the request body: \<open>auth.currentUser\<close> is the
  first argument, and \<open>throw new Error('User not authenticated')\<close> is the \<open>Inl\<close> result.
  The literal \<open>0.7\<close> is the rational 7/10.
\<close>

definition fetchRecommendations_request ::
  "string option \<Rightarrow> jsobject option \<Rightarrow> jsobject option \<Rightarrow> fetch_error + engineProfile \<times> engineQuery"
where
  "fetchRecommendations_request user profileData queryData =
     (case user of
        None \<Rightarrow> Inl UserNotAuthenticated
      | Some u \<Rightarrow>
          Inr (\<lparr>age_range = js_or (opt_get profileData ''age'') (JStr ''30-34''),
                location = js_or (opt_get profileData ''location'') (JStr ''Unknown''),
                property_value = js_or (opt_get profileData ''propertyValue'') (JStr ''prefer_not_to_say''),
                vehicle_value = js_or (opt_get profileData ''vehicleValue'') (JStr ''prefer_not_to_say''),
                investments = js_or (opt_get profileData ''investments'') (JStr ''prefer_not_to_say''),
                debt = js_or (opt_get profileData ''debt'') (JStr ''prefer_not_to_say''),
                monthly_salary = js_or (opt_get profileData ''salary'') (JStr ''prefer_not_to_say''),
                has_dependents = js_or (opt_get profileData ''has_dependents'') (JBool False),
                employment_stability = 7 / 10\<rparr>,
               \<lparr>risk_tolerance = js_or (opt_get queryData ''riskLevel'') (JStr ''medium''),
                current_situation = js_or (opt_get queryData ''currentSituation'') (JStr ''''),
                goal = js_or (opt_get queryData ''futureGoals'') (JStr '''')\<rparr>))"

text \<open>
  A field that is missing, \<open>null\<close> or the empty string: what \<open>obj?.field\<close> yields for a
  profile that does not carry the field, carries \<open>null\<close> for it, or carries \<open>''\<close>.
\<close>

definition absent :: "jsval \<Rightarrow> bool" where
  "absent v = (v = Undefined \<or> v = Null \<or> v = JStr [])"

section \<open>A sample engine response\<close>

text \<open>
  Three short-term recommendations and one medium-term one. The second short-term action
  names three prerequisites: one of its own stage, one of the medium-term stage and one
  that no recommendation carries.
\<close>

definition sample_short :: "recommendation list" where
  "sample_short =
     [\<lparr>action_id = ''action_001'', name = ''Build Emergency Fund'',
       description = Some ''Start building an emergency fund'',
       personalized_description = None, prerequisites = Some []\<rparr>,
      \<lparr>action_id = ''action_002'', name = ''Pay Off Credit Card Debt'',
       description = Some '''', personalized_description = Some ''Clear the card balance first'',
       prerequisites = Some [''Build Emergency Fund'', ''Open Brokerage Account'', ''Win The Lottery'']\<rparr>,
      \<lparr>action_id = ''action_003'', name = ''Create Budget'',
       description = None, personalized_description = None, prerequisites = None\<rparr>]"

definition sample_medium :: "recommendation list" where
  "sample_medium =
     [\<lparr>action_id = ''action_010'', name = ''Open Brokerage Account'',
       description = Some ''Open an account'', personalized_description = None,
       prerequisites = Some [''Pay Off Credit Card Debt'']\<rparr>]"

definition sample_all :: "recommendation list" where
  "sample_all = sample_short @ sample_medium"

text \<open>
  A response in which a medium-term recommendation carries the \<open>action_id\<close> of a
  short-term one, and the third short-term action names that medium-term recommendation as
  its prerequisite.
\<close>

definition shared_short :: "recommendation list" where
  "shared_short =
     [\<lparr>action_id = ''action_001'', name = ''Build Emergency Fund'',
       description = Some ''Start building an emergency fund'',
       personalized_description = None, prerequisites = Some []\<rparr>,
      \<lparr>action_id = ''action_002'', name = ''Create Budget'',
       description = None, personalized_description = None, prerequisites = None\<rparr>,
      \<lparr>action_id = ''action_003'', name = ''Invest in Index Funds'',
       description = None, personalized_description = None,
       prerequisites = Some [''Open Brokerage Account'']\<rparr>]"

definition shared_medium :: "recommendation list" where
  "shared_medium =
     [\<lparr>action_id = ''action_001'', name = ''Open Brokerage Account'',
       description = Some ''Open an account'', personalized_description = None,
       prerequisites = Some []\<rparr>]"

definition shared_all :: "recommendation list" where
  "shared_all = shared_short @ shared_medium"

section \<open>The recommendation engine\<close>

text \<open>
  The engine (\<open>engine/core/scorer.py\<close>, \<open>dag_builder.py\<close>, \<open>recommender.py\<close>,
  \<open>engine.py\<close> and \<open>engine/models\<close>) is described by the README and called by the client,
  but its Python sources are not among the files at hand. The definitions of this section
  follow the words of the specification, sections 3, 4.3, 4.4 and 4.7. Total scores
  and weights are rationals.
\<close>

subsection \<open>Scoring weights and engine construction\<close>

text \<open>
  Modelled from the spec: the weight set \<open>ScoringWeights\<close> of \<open>engine/models\<close>, one weight
  for each of the eight score dimensions of section 4.3. The first seven field names are
  those of the README's example; the README does not name the weight of the priority-area
  match.
\<close>

record ScoringWeights =
  base_priority_weight :: rat
  risk_tolerance_weight :: rat
  goal_alignment_weight :: rat
  profile_fit_weight :: rat
  urgency_weight :: rat
  impact_weight :: rat
  feasibility_weight :: rat
  priority_area_weight :: rat

text \<open>Modelled from the spec: the sum of the eight weights that the validation compares with 1.0.\<close>

definition weights_sum :: "ScoringWeights \<Rightarrow> rat" where
  "weights_sum w =
     base_priority_weight w + risk_tolerance_weight w + goal_alignment_weight w
     + profile_fit_weight w + urgency_weight w + impact_weight w + feasibility_weight w
     + priority_area_weight w"

text \<open>Modelled from the spec: the configuration error of section 7 for a bad weight set.\<close>

datatype config_error = InvalidWeights

text \<open>Modelled from the spec: the engine object \<open>AscendEngine\<close>, of which only the weights matter here.\<close>

record AscendEngine =
  scoring_weights :: ScoringWeights

text \<open>
  Modelled from the spec: the constructor \<open>AscendEngine(scoring_weights=weights)\<close> of
  \<open>engine/core/engine.py\<close>: "weights configurable but must sum to 1.0 (validated at engine
  construction; a non-summing weight set is a construction-time error, not a per-request
  one)".
\<close>

definition construct_engine :: "ScoringWeights \<Rightarrow> config_error + AscendEngine" where
  "construct_engine w =
     (if weights_sum w = 1 then Inr \<lparr>scoring_weights = w\<rparr> else Inl InvalidWeights)"

text \<open>
  Modelled from the spec: the eight sub-scores of one action and the scorer's total
  \<open>\<Sigma>(weight_i \<times> subscore_i)\<close>, computed per request from an engine that already exists.
\<close>

record ScoreBreakdown =
  base_priority :: rat
  risk_alignment :: rat
  goal_alignment :: rat
  profile_fit :: rat
  urgency :: rat
  impact_potential :: rat
  feasibility :: rat
  priority_area_match :: rat

definition total_score :: "AscendEngine \<Rightarrow> ScoreBreakdown \<Rightarrow> rat" where
  "total_score engine b =
     (let w = scoring_weights engine
      in base_priority_weight w * base_priority b + risk_tolerance_weight w * risk_alignment b
         + goal_alignment_weight w * goal_alignment b + profile_fit_weight w * profile_fit b
         + urgency_weight w * urgency b + impact_weight w * impact_potential b
         + feasibility_weight w * feasibility b + priority_area_weight w * priority_area_match b)"

subsection \<open>Scored actions and the dependency graph\<close>

text \<open>
  Modelled from the spec: the horizon affinity of an action, "short/medium/long/extended"
  (section 3).
\<close>

datatype horizon = Short | Medium | Long | Extended

text \<open>
  Modelled from the spec: a \<open>ScoredAction\<close> of section 3, with the fields the graph and the
  grouping read. A node of the graph is the position of an action in the candidate list
  (the catalog's declaration order, generated actions after it).
\<close>

record ScoredAction =
  sa_id :: string
  sa_name :: string
  sa_category :: string
  sa_horizon :: horizon
  sa_total :: rat
  sa_prerequisites :: "string list"

text \<open>
  Modelled from the spec: an edge of the \<open>DependencyGraph\<close>, "directed from prerequisite
  to dependent".
\<close>

type_synonym 'a edge = "'a \<times> 'a"

text \<open>
  Modelled from the spec: the edge construction of \<open>dag_builder.py\<close>: "for every declared
  prerequisite name on an action, add prerequisite\<rightarrow>action edge if the prerequisite is
  present in the current candidate set; otherwise drop the edge". A name denotes the first
  candidate that carries it.
\<close>

definition build_edges :: "ScoredAction list \<Rightarrow> nat edge list" where
  "build_edges cands =
     concat (map (\<lambda>(v, a).
               concat (map (\<lambda>p. case find (\<lambda>(u, c). sa_name c = p) (enumerate 0 cands) of
                                   Some (u, c) \<Rightarrow> [(u, v)]
                                 | None \<Rightarrow> [])
                           (sa_prerequisites a)))
             (enumerate 0 cands))"

text \<open>Modelled from the spec: the dependents of a node, in the order of the edge list.\<close>

definition successors :: "'a edge list \<Rightarrow> 'a \<Rightarrow> 'a list" where
  "successors es u = map snd (filter (\<lambda>e. fst e = u) es)"

text \<open>
  Modelled from the spec: the traversal stops at the first cycle it meets: of the results
  of the visits in order, the first that is a cycle.
\<close>

fun first_some :: "'b option list \<Rightarrow> 'b option" where
  "first_some [] = None"
| "first_some (Some x # xs) = Some x"
| "first_some (None # xs) = first_some xs"

text \<open>
  Modelled from the spec: the cycle detection of \<open>dag_builder.py\<close>, "depth-first traversal
  tracking the recursion stack". \<open>path\<close> is the recursion stack from the start node down to
  the node whose successor \<open>v\<close> is being entered. A successor that is on the stack closes a
  cycle, returned as the walk from that node along the stack and back to it.
\<close>

function dfs :: "'a edge list \<Rightarrow> 'a list \<Rightarrow> 'a \<Rightarrow> 'a list option" where
  "dfs es path v =
     (if v \<in> set path then Some (dropWhile (\<lambda>x. x \<noteq> v) path @ [v])
      else first_some (map (dfs es (path @ [v])) (successors es v)))"
  by pat_completeness auto

lemma successors_source: "w \<in> set (successors es v) \<Longrightarrow> v \<in> fst ` set es"
  by (auto simp: successors_def)

termination dfs
proof (relation "measure (\<lambda>(es, path, v). card (fst ` set es - set path))")
  show "wf (measure (\<lambda>(es, path, v). card (fst ` set es - set path)))"
    by simp
next
  fix es :: "'a edge list" and path :: "'a list" and v w :: 'a
  assume "v \<notin> set path" and "w \<in> set (successors es v)"
  then have "v \<in> fst ` set es - set path"
    by (simp add: successors_source)
  then have "card ((fst ` set es - set path) - {v}) < card (fst ` set es - set path)"
    by (intro card_Diff1_less) auto
  moreover have "fst ` set es - set (path @ [v]) = (fst ` set es - set path) - {v}"
    by auto
  ultimately have "card (fst ` set es - set (path @ [v])) < card (fst ` set es - set path)"
    by simp
  then show "((es, path @ [v], w), (es, path, v))
               \<in> measure (\<lambda>(es, path, v). card (fst ` set es - set path))"
    by simp
qed

declare dfs.simps [simp del]

text \<open>Modelled from the spec: the traversal is started from every node in turn, on an empty stack.\<close>

definition detect_cycle :: "'a list \<Rightarrow> 'a edge list \<Rightarrow> 'a list option" where
  "detect_cycle nodes es = first_some (map (dfs es []) nodes)"

text \<open>Modelled from the spec: the edges of the detected cycle, along the returned walk.\<close>

definition cycle_edges :: "'a list \<Rightarrow> 'a edge list" where
  "cycle_edges w = zip w (tl w)"

text \<open>
  Modelled from the spec: the cycle break of \<open>dag_builder.py\<close>, "removing the
  lowest-weighted-edge-score edge in the cycle (the edge whose head node has the lowest
  total score)". The head of the edge \<open>(u, v)\<close> is \<open>v\<close>. The spec leaves ties open; the
  first such edge along the cycle is taken.
\<close>

definition weakest_edge :: "('a \<Rightarrow> rat) \<Rightarrow> 'a list \<Rightarrow> 'a edge" where
  "weakest_edge score w = arg_min_list (\<lambda>e. score (snd e)) (cycle_edges w)"

definition break_cycle :: "('a \<Rightarrow> rat) \<Rightarrow> 'a list \<Rightarrow> 'a edge list \<Rightarrow> 'a edge list" where
  "break_cycle score w es = remove1 (weakest_edge score w) es"

text \<open>
  Modelled from the spec: the cycle-resolution loop of \<open>dag_builder.py\<close>, "on cycle
  detection, break the cycle ... and retry detection". The loop is written without a
  bound on its iterations: \<open>None\<close> is the loop that never ends.
\<close>

partial_function (option) resolve_cycles ::
  "('a \<Rightarrow> rat) \<Rightarrow> 'a list \<Rightarrow> 'a edge list \<Rightarrow> 'a edge list option"
where
  "resolve_cycles score nodes es =
     (case detect_cycle nodes es of
        None \<Rightarrow> Some es
      | Some w \<Rightarrow> resolve_cycles score nodes (break_cycle score w es))"

declare resolve_cycles.simps [code]

subsection \<open>Topological order\<close>

text \<open>
  Modelled from the spec: a node may be placed once none of its prerequisites is still
  waiting.
\<close>

definition ready :: "'a edge list \<Rightarrow> 'a list \<Rightarrow> 'a \<Rightarrow> bool" where
  "ready es remaining n = (\<not> list_ex (\<lambda>e. snd e = n \<and> fst e \<in> set remaining) es)"

text \<open>
  Modelled from the spec: "ties (nodes with no relative ordering constraint) are broken by
  descending total score, then by catalog declaration order": of the nodes of a list in
  declaration order, the first one of the highest score.
\<close>

fun pick_best :: "('a \<Rightarrow> rat) \<Rightarrow> 'a list \<Rightarrow> 'a option" where
  "pick_best score [] = None"
| "pick_best score (x # xs) =
     (case pick_best score xs of
        None \<Rightarrow> Some x
      | Some y \<Rightarrow> if score y \<le> score x then Some x else Some y)"

lemma pick_best_mem: "pick_best score xs = Some n \<Longrightarrow> n \<in> set xs"
  by (induction xs arbitrary: n) (auto split: option.splits if_splits)

text \<open>
  Modelled from the spec: the topological sort of \<open>dag_builder.py\<close>, "verified by
  attempting a topological sort and asserting it succeeds for all nodes": the best ready
  node is placed next; the sort fails (\<open>None\<close>) when nodes remain and none is ready.
\<close>

function topo_order :: "('a \<Rightarrow> rat) \<Rightarrow> 'a edge list \<Rightarrow> 'a list \<Rightarrow> 'a list option" where
  "topo_order score es remaining =
     (if remaining = [] then Some []
      else case pick_best score (filter (ready es remaining) remaining) of
             None \<Rightarrow> None
           | Some n \<Rightarrow>
               (case topo_order score es (remove1 n remaining) of
                  None \<Rightarrow> None
                | Some order \<Rightarrow> Some (n # order)))"
  by pat_completeness auto

termination topo_order
proof (relation "measure (\<lambda>(score, es, remaining). length remaining)")
  show "wf (measure (\<lambda>(score, es, remaining). length remaining))"
    by simp
next
  fix score :: "'a \<Rightarrow> rat" and es :: "'a edge list" and remaining :: "'a list" and n :: 'a
  assume "remaining \<noteq> []" and "pick_best score (filter (ready es remaining) remaining) = Some n"
  then have "n \<in> set remaining"
    by (auto dest: pick_best_mem)
  then have "length (remove1 n remaining) < length remaining"
    using length_pos_if_in_set [of n remaining] by (simp add: length_remove1)
  then show "((score, es, remove1 n remaining), (score, es, remaining))
               \<in> measure (\<lambda>(score, es, remaining). length remaining)"
    by simp
qed

declare topo_order.simps [simp del]

subsection \<open>The graph stage\<close>

text \<open>
  Modelled from the spec: the graph stage of \<open>process\<close> (section 4.4) on the scored
  candidates: the edges that survive cycle resolution.
\<close>

definition build_dag :: "ScoredAction list \<Rightarrow> nat edge list option" where
  "build_dag cands =
     resolve_cycles (\<lambda>n. sa_total (cands ! n)) [0..<length cands] (build_edges cands)"

text \<open>
  Modelled from the spec: "\<open>u\<close> precedes \<open>v\<close>" in an order: after the first \<open>u\<close> of the
  list there is a \<open>v\<close>.
\<close>

fun precedes :: "'a \<Rightarrow> 'a \<Rightarrow> 'a list \<Rightarrow> bool" where
  "precedes u v [] = False"
| "precedes u v (x # xs) = (if x = u then v \<in> set xs else precedes u v xs)"

subsection \<open>Sample candidates\<close>

text \<open>
  Four scored candidates. The first two name each other as prerequisite (a cycle), the
  third needs the first.
\<close>

definition sample_cands :: "ScoredAction list" where
  "sample_cands =
     [\<lparr>sa_id = ''action_001'', sa_name = ''Build Emergency Fund'', sa_category = ''savings'',
       sa_horizon = Short, sa_total = 80, sa_prerequisites = [''Create Budget'']\<rparr>,
      \<lparr>sa_id = ''action_002'', sa_name = ''Create Budget'', sa_category = ''budgeting'',
       sa_horizon = Short, sa_total = 70, sa_prerequisites = [''Build Emergency Fund'']\<rparr>,
      \<lparr>sa_id = ''action_003'', sa_name = ''Invest in Index Funds'', sa_category = ''investing'',
       sa_horizon = Long, sa_total = 60, sa_prerequisites = [''Build Emergency Fund'', ''Win The Lottery'']\<rparr>,
      \<lparr>sa_id = ''action_004'', sa_name = ''Pay Off Credit Card Debt'', sa_category = ''debt'',
       sa_horizon = Medium, sa_total = 90, sa_prerequisites = []\<rparr>]"
section \<open>Properties of the risk slider\<close>

text \<open>
  Claim C1. For every slider value \<open>v\<close> in the integer range 0..100 the derived risk
  tolerance is \<open>low\<close> exactly when \<open>v < 33\<close>, \<open>medium\<close> exactly when \<open>33 \<le> v < 67\<close>, and
  \<open>high\<close> exactly when \<open>v \<ge> 67\<close>.
\<close>

theorem getRiskLevel_thresholds:
  assumes "0 \<le> v" and "v \<le> 100"
  shows "(getRiskLevel v = ''low'' \<longleftrightarrow> v < 33)
       \<and> (getRiskLevel v = ''medium'' \<longleftrightarrow> 33 \<le> v \<and> v < 67)
       \<and> (getRiskLevel v = ''high'' \<longleftrightarrow> 67 \<le> v)"
  by (simp add: getRiskLevel_def)

theorem getRiskLevel_thresholds_witness:
  "(0::int) \<le> 50 \<and> (50::int) \<le> 100
   \<and> getRiskLevel 50 = ''medium'' \<and> getRiskLevel 50 \<noteq> ''low'' \<and> getRiskLevel 50 \<noteq> ''high''"
  using getRiskLevel_thresholds [of 50] by simp

section \<open>Properties of the resource lookup\<close>

lemma findMatching_first:
  "i < length es \<Longrightarrow> str_includes n (fst (es ! i))
   \<Longrightarrow> (\<forall>j<i. \<not> str_includes n (fst (es ! j)))
   \<Longrightarrow> findMatching es n = Some (snd (es ! i))"
proof (induction es arbitrary: i)
  case Nil
  then show ?case by simp
next
  case (Cons e es)
  show ?case
  proof (cases i)
    case 0
    with Cons.prems show ?thesis by simp
  next
    case (Suc k)
    from Cons.prems(3) Suc have "\<not> str_includes n (fst e)" by auto
    moreover from Cons.prems Suc have "findMatching es n = Some (snd (es ! k))"
      by (intro Cons.IH) auto
    ultimately show ?thesis using Suc by simp
  qed
qed

lemma findMatching_none:
  "(\<forall>e\<in>set es. \<not> str_includes n (fst e)) \<Longrightarrow> findMatching es n = None"
  by (induction es) auto

lemma findMatching_mem:
  "findMatching es n = Some r \<Longrightarrow> r \<in> snd ` set es"
  by (induction es) (auto split: if_splits)

lemma resourceMap_pairs: "\<forall>e\<in>set resourceMap. length (snd e) = 2"
  by (simp add: resourceMap_def)

text \<open>
  Every keyword of the map is its own lower-case form, so that a keyword is contained in
  the lower-cased name exactly when it is contained in the name up to the case of letters.
\<close>

lemma resourceMap_lower: "\<forall>e\<in>set resourceMap. toLowerCase (fst e) = fst e"
  by code_simp

lemma generateResources_length: "length (generateResources actionName actionId) = 2"
proof (cases "findMatching resourceMap (toLowerCase actionName)")
  case None
  then show ?thesis by (simp add: generateResources_def defaultResources_def)
next
  case (Some r)
  then have "r \<in> snd ` set resourceMap" by (rule findMatching_mem)
  with resourceMap_pairs have "length r = 2" by auto
  with Some show ?thesis by (simp add: generateResources_def)
qed

text \<open>
  Claim C10. For every action name, \<open>generateResources\<close> returns exactly two resource
  links: the pair of the first keyword of the map, in declaration order, that the
  lower-cased name contains, or the fixed default pair when the name contains no keyword;
  the second argument \<open>actionId\<close> has no effect on the result.
\<close>

theorem generateResources_first_keyword:
  "length (generateResources actionName actionId) = 2
   \<and> (\<forall>i<length resourceMap.
         str_includes (toLowerCase actionName) (fst (resourceMap ! i))
         \<and> (\<forall>j<i. \<not> str_includes (toLowerCase actionName) (fst (resourceMap ! j)))
         \<longrightarrow> generateResources actionName actionId = snd (resourceMap ! i))
   \<and> ((\<forall>e\<in>set resourceMap. \<not> str_includes (toLowerCase actionName) (fst e))
         \<longrightarrow> generateResources actionName actionId = defaultResources)
   \<and> generateResources actionName actionId = generateResources actionName otherId"
proof (intro conjI allI impI)
  show "length (generateResources actionName actionId) = 2"
    by (rule generateResources_length)
next
  fix i
  assume "i < length resourceMap"
    and "str_includes (toLowerCase actionName) (fst (resourceMap ! i))
         \<and> (\<forall>j<i. \<not> str_includes (toLowerCase actionName) (fst (resourceMap ! j)))"
  then have "findMatching resourceMap (toLowerCase actionName) = Some (snd (resourceMap ! i))"
    by (intro findMatching_first) auto
  then show "generateResources actionName actionId = snd (resourceMap ! i)"
    by (simp add: generateResources_def)
next
  assume "\<forall>e\<in>set resourceMap. \<not> str_includes (toLowerCase actionName) (fst e)"
  then have "findMatching resourceMap (toLowerCase actionName) = None"
    by (rule findMatching_none)
  then show "generateResources actionName actionId = defaultResources"
    by (simp add: generateResources_def)
next
  show "generateResources actionName actionId = generateResources actionName otherId"
    by (simp add: generateResources_def)
qed

theorem generateResources_first_keyword_witness:
  "4 < length resourceMap
   \<and> fst (resourceMap ! 4) = ''debt''
   \<and> str_includes (toLowerCase ''Pay Off DEBT and Build Credit'') (fst (resourceMap ! 4))
   \<and> list_all (\<lambda>e. \<not> str_includes (toLowerCase ''Pay Off DEBT and Build Credit'') (fst e))
         (take 4 resourceMap)
   \<and> generateResources ''Pay Off DEBT and Build Credit'' ''action_007'' = snd (resourceMap ! 4)
   \<and> list_all (\<lambda>e. \<not> str_includes (toLowerCase ''Review Subscriptions'') (fst e)) resourceMap
   \<and> generateResources ''Review Subscriptions'' ''action_008'' = defaultResources"
proof -
  have h1: "4 < length resourceMap"
    by (simp add: resourceMap_def)
  have h2: "str_includes (toLowerCase ''Pay Off DEBT and Build Credit'') (fst (resourceMap ! 4))"
    by code_simp
  have h3: "list_all (\<lambda>e. \<not> str_includes (toLowerCase ''Pay Off DEBT and Build Credit'') (fst e))
              (take 4 resourceMap)"
    by code_simp
  have h4: "list_all (\<lambda>e. \<not> str_includes (toLowerCase ''Review Subscriptions'') (fst e)) resourceMap"
    by code_simp
  have h5: "fst (resourceMap ! 4) = ''debt''"
    by (simp add: resourceMap_def)
  from h1 h3 have h3': "\<forall>j<4. \<not> str_includes (toLowerCase ''Pay Off DEBT and Build Credit'')
                                 (fst (resourceMap ! j))"
    by (simp add: list_all_length)
  from h4 have h4': "\<forall>e\<in>set resourceMap. \<not> str_includes (toLowerCase ''Review Subscriptions'') (fst e)"
    by (simp add: list_all_iff)
  have r1: "generateResources ''Pay Off DEBT and Build Credit'' ''action_007'' = snd (resourceMap ! 4)"
    using generateResources_first_keyword
            [of "''Pay Off DEBT and Build Credit''" "''action_007''" "''action_007''"] h1 h2 h3'
    by blast
  have r2: "generateResources ''Review Subscriptions'' ''action_008'' = defaultResources"
    using generateResources_first_keyword
            [of "''Review Subscriptions''" "''action_008''" "''action_008''"] h4'
    by blast
  from h1 h2 h3 h4 h5 r1 r2 show ?thesis by blast
qed

section \<open>Properties of the visualization nodes\<close>

lemma set_foldl_set_add: "set (foldl set_add acc xs) = set acc \<union> set xs"
  by (induction xs arbitrary: acc) (auto simp: set_add_def)

lemma set_new_Set: "set (new_Set xs) = set xs"
  by (simp add: new_Set_def set_foldl_set_add)




lemma nth_transformRecommendations:
  "i < length recs \<Longrightarrow>
   transformRecommendations recs allRecs ! i = transformNode recs allRecs (i, recs ! i)"
  by (simp add: transformRecommendations_def nth_enumerate_eq)

lemma dependencies_nth:
  "i < length recs \<Longrightarrow>
   dependencies (transformRecommendations recs allRecs ! i) = allDeps recs allRecs i (recs ! i)"
  by (simp add: nth_transformRecommendations transformNode_def)


lemma set_allDeps:
  "set (allDeps recs allRecs i rec) =
   set (sequentialDeps recs i) \<union> set (relevantEngineDeps recs allRecs rec)"
  by (simp add: allDeps_def set_new_Set)




lemma find_Some_holds: "find P xs = Some x \<Longrightarrow> P x \<and> x \<in> set xs"
  by (induction xs) (auto split: if_splits)

lemma engineDeps_mem:
  assumes "d \<in> set (engineDeps allRecs rec)"
  shows "\<exists>ps p depRec. prerequisites rec = Some ps \<and> p \<in> set ps
           \<and> find (\<lambda>r. name r = p) allRecs = Some depRec \<and> action_id depRec = d"
proof (cases "prerequisites rec")
  case None
  with assms show ?thesis by (simp add: engineDeps_def)
next
  case (Some ps)
  with assms obtain p depRec where "p \<in> set ps"
      and "find (\<lambda>r. name r = p) allRecs = Some depRec" and "action_id depRec = d"
    by (auto simp: engineDeps_def split: option.splits if_splits)
  with Some show ?thesis by blast
qed

lemma unique_id_member:
  assumes "distinct (map action_id allRecs)" and "set recs \<subseteq> set allRecs"
    and "depRec \<in> set allRecs" and "action_id depRec \<in> stageIds recs"
  shows "depRec \<in> set recs"
proof -
  from assms(4) obtain r where r: "r \<in> set recs" "action_id r = action_id depRec"
    by (auto simp: stageIds_def)
  with assms(2) have "r \<in> set allRecs" by auto
  moreover from assms(1) have "inj_on action_id (set allRecs)"
    by (simp add: distinct_map)
  ultimately have "r = depRec" using r(2) assms(3) by (auto dest: inj_onD)
  with r(1) show ?thesis by simp
qed

lemma relevant_filter_prerequisites:
  assumes "prerequisites rec = Some ps"
  shows "relevantEngineDeps recs allRecs
           (rec\<lparr>prerequisites :=
                  Some (filter (\<lambda>p. case find (\<lambda>r. name r = p) allRecs of
                                       None \<Rightarrow> False
                                     | Some depRec \<Rightarrow> action_id depRec \<in> stageIds recs) ps)\<rparr>)
         = relevantEngineDeps recs allRecs rec"
  unfolding relevantEngineDeps_def engineDeps_def assms
  by (induction ps) (auto split: option.splits)

lemma sequentialDeps_stage:
  "i < length recs \<Longrightarrow> set (sequentialDeps recs i) \<subseteq> stageIds recs"
  by (auto simp: sequentialDeps_def stageIds_def)

text \<open>
  Claim C9, as amended. An engine-declared prerequisite contributes a dependency only if
  its name is the name of some recommendation of the full result (the first such
  recommendation is the matched action) and the \<open>action_id\<close> of the matched action is the
  \<open>action_id\<close> of a recommendation of the dependent action's stage; when the ids of the
  full result are unique and the stage is part of the full result, the matched action is
  then itself one of the stage's recommendations. Prerequisites whose matched action has
  an id that is not an id of the stage, or that match no recommendation, are dropped: no
  node of the stage has a dependency outside the stage's ids, and deleting those
  prerequisites from the recommendation leaves its dependencies unchanged.
\<close>

theorem transformRecommendations_engine_prerequisites:
  assumes "i < length recs"
  shows "(\<forall>d\<in>set (dependencies (transformRecommendations recs allRecs ! i)).
            (0 < i \<and> d = action_id (recs ! (i - 1)))
          \<or> (\<exists>ps p depRec.
                prerequisites (recs ! i) = Some ps \<and> p \<in> set ps
              \<and> find (\<lambda>r. name r = p) allRecs = Some depRec
              \<and> depRec \<in> set allRecs \<and> name depRec = p \<and> action_id depRec = d
              \<and> d \<in> stageIds recs
              \<and> (distinct (map action_id allRecs) \<and> set recs \<subseteq> set allRecs
                    \<longrightarrow> depRec \<in> set recs)))
       \<and> set (dependencies (transformRecommendations recs allRecs ! i)) \<subseteq> stageIds recs
       \<and> (\<forall>ps. prerequisites (recs ! i) = Some ps \<longrightarrow>
             dependencies (transformRecommendations recs allRecs ! i)
               = allDeps recs allRecs i
                   ((recs ! i)\<lparr>prerequisites :=
                      Some (filter (\<lambda>p. case find (\<lambda>r. name r = p) allRecs of
                                           None \<Rightarrow> False
                                         | Some depRec \<Rightarrow> action_id depRec \<in> stageIds recs) ps)\<rparr>))"
proof (intro conjI ballI allI impI)
  fix d
  assume "d \<in> set (dependencies (transformRecommendations recs allRecs ! i))"
  with assms have "d \<in> set (sequentialDeps recs i) \<or> d \<in> set (relevantEngineDeps recs allRecs (recs ! i))"
    by (simp add: dependencies_nth set_allDeps)
  then show "(0 < i \<and> d = action_id (recs ! (i - 1)))
          \<or> (\<exists>ps p depRec.
                prerequisites (recs ! i) = Some ps \<and> p \<in> set ps
              \<and> find (\<lambda>r. name r = p) allRecs = Some depRec
              \<and> depRec \<in> set allRecs \<and> name depRec = p \<and> action_id depRec = d
              \<and> d \<in> stageIds recs
              \<and> (distinct (map action_id allRecs) \<and> set recs \<subseteq> set allRecs
                    \<longrightarrow> depRec \<in> set recs))"
  proof
    assume "d \<in> set (sequentialDeps recs i)"
    then have "0 < i \<and> d = action_id (recs ! (i - 1))"
      by (auto simp: sequentialDeps_def split: if_splits)
    then show ?thesis ..
  next
    assume rel: "d \<in> set (relevantEngineDeps recs allRecs (recs ! i))"
    then have stage: "d \<in> stageIds recs" and "d \<in> set (engineDeps allRecs (recs ! i))"
      by (simp_all add: relevantEngineDeps_def)
    then obtain ps p depRec where m: "prerequisites (recs ! i) = Some ps" "p \<in> set ps"
        "find (\<lambda>r. name r = p) allRecs = Some depRec" "action_id depRec = d"
      using engineDeps_mem by blast
    from m(3) have f: "name depRec = p" "depRec \<in> set allRecs"
      using find_Some_holds [of "\<lambda>r. name r = p" allRecs depRec] by simp_all
    have u: "distinct (map action_id allRecs) \<and> set recs \<subseteq> set allRecs \<longrightarrow> depRec \<in> set recs"
      using unique_id_member [of allRecs recs depRec] f(2) stage m(4) by blast
    from stage m f u show ?thesis by blast
  qed
next
  have "set (allDeps recs allRecs i (recs ! i)) \<subseteq> stageIds recs"
    using sequentialDeps_stage [OF assms]
    by (auto simp: set_allDeps relevantEngineDeps_def)
  then show "set (dependencies (transformRecommendations recs allRecs ! i)) \<subseteq> stageIds recs"
    using assms by (simp add: dependencies_nth)
next
  fix ps
  assume "prerequisites (recs ! i) = Some ps"
  then have "relevantEngineDeps recs allRecs
           ((recs ! i)\<lparr>prerequisites :=
                  Some (filter (\<lambda>p. case find (\<lambda>r. name r = p) allRecs of
                                       None \<Rightarrow> False
                                     | Some depRec \<Rightarrow> action_id depRec \<in> stageIds recs) ps)\<rparr>)
         = relevantEngineDeps recs allRecs (recs ! i)"
    by (rule relevant_filter_prerequisites)
  then show "dependencies (transformRecommendations recs allRecs ! i)
               = allDeps recs allRecs i
                   ((recs ! i)\<lparr>prerequisites :=
                      Some (filter (\<lambda>p. case find (\<lambda>r. name r = p) allRecs of
                                           None \<Rightarrow> False
                                         | Some depRec \<Rightarrow> action_id depRec \<in> stageIds recs) ps)\<rparr>)"
    using assms by (simp add: dependencies_nth allDeps_def)
qed


theorem transformRecommendations_engine_prerequisites_witness:
  "1 < length sample_short
   \<and> prerequisites (sample_short ! 1)
       = Some [''Build Emergency Fund'', ''Open Brokerage Account'', ''Win The Lottery'']
   \<and> find (\<lambda>r. name r = ''Open Brokerage Account'') sample_all = Some (sample_medium ! 0)
   \<and> action_id (sample_medium ! 0) = ''action_010''
   \<and> ''action_010'' \<notin> stageIds sample_short
   \<and> find (\<lambda>r. name r = ''Win The Lottery'') sample_all = None
   \<and> distinct (map action_id sample_all) \<and> set sample_short \<subseteq> set sample_all
   \<and> ''action_010'' \<notin> set (dependencies (transformRecommendations sample_short sample_all ! 1))
   \<and> dependencies (transformRecommendations sample_short sample_all ! 1)
       = allDeps sample_short sample_all 1
           ((sample_short ! 1)\<lparr>prerequisites := Some [''Build Emergency Fund'']\<rparr>)
   \<and> dependencies (transformRecommendations sample_short sample_all ! 1) = [''action_001'']"
proof -
  have l: "1 < length sample_short"
    by (simp add: sample_short_def)
  have p: "prerequisites (sample_short ! 1)
       = Some [''Build Emergency Fund'', ''Open Brokerage Account'', ''Win The Lottery'']"
    by (simp add: sample_short_def)
  have f1: "find (\<lambda>r. name r = ''Open Brokerage Account'') sample_all = Some (sample_medium ! 0)"
    by (simp add: sample_all_def sample_short_def sample_medium_def)
  have f2: "find (\<lambda>r. name r = ''Win The Lottery'') sample_all = None"
    by (simp add: sample_all_def sample_short_def sample_medium_def)
  have i10: "action_id (sample_medium ! 0) = ''action_010''"
    by (simp add: sample_medium_def)
  have n: "''action_010'' \<notin> stageIds sample_short"
    by (simp add: stageIds_def sample_short_def)
  have d: "distinct (map action_id sample_all)" "set sample_short \<subseteq> set sample_all"
    by (simp_all add: sample_all_def sample_short_def sample_medium_def)
  have k: "filter (\<lambda>p. case find (\<lambda>r. name r = p) sample_all of
                         None \<Rightarrow> False
                       | Some depRec \<Rightarrow> action_id depRec \<in> stageIds sample_short)
             [''Build Emergency Fund'', ''Open Brokerage Account'', ''Win The Lottery'']
           = [''Build Emergency Fund'']"
    by (simp add: stageIds_def sample_all_def sample_short_def sample_medium_def)
  have v: "allDeps sample_short sample_all 1
             ((sample_short ! 1)\<lparr>prerequisites := Some [''Build Emergency Fund'']\<rparr>) = [''action_001'']"
    by code_simp
  note t = transformRecommendations_engine_prerequisites [OF l, of sample_all]
  from t n have a: "''action_010'' \<notin> set (dependencies (transformRecommendations sample_short sample_all ! 1))"
    by blast
  from t p k have b: "dependencies (transformRecommendations sample_short sample_all ! 1)
       = allDeps sample_short sample_all 1
           ((sample_short ! 1)\<lparr>prerequisites := Some [''Build Emergency Fund'']\<rparr>)"
    by simp
  from l p f1 f2 i10 n d a b v show ?thesis by simp
qed

text \<open>
  The claim as first stated asks that the matched action itself belong to the stage of the
  dependent action. The stage is told by ids alone: when the matched action lies in
  another stage and carries the id of an action of this stage, the prerequisite adds that
  id to the dependencies.
\<close>

theorem transformRecommendations_shared_id_counterexample:
  "map name shared_all
     = [''Build Emergency Fund'', ''Create Budget'', ''Invest in Index Funds'',
        ''Open Brokerage Account'']
   \<and> shared_all ! 3 = shared_medium ! 0
   \<and> shared_medium ! 0 \<notin> set shared_short
   \<and> action_id (shared_medium ! 0) = ''action_001''
   \<and> prerequisites (shared_short ! 2) = Some [''Open Brokerage Account'']
   \<and> engineDeps shared_all (shared_short ! 2) = [''action_001'']
   \<and> sequentialDeps shared_short 2 = [''action_002'']
   \<and> dependencies (transformRecommendations shared_short shared_all ! 2)
       = [''action_002'', ''action_001'']"
proof -
  have a: "map name shared_all
     = [''Build Emergency Fund'', ''Create Budget'', ''Invest in Index Funds'',
        ''Open Brokerage Account'']"
    "shared_all ! 3 = shared_medium ! 0"
    "shared_medium ! 0 \<notin> set shared_short"
    "action_id (shared_medium ! 0) = ''action_001''"
    "prerequisites (shared_short ! 2) = Some [''Open Brokerage Account'']"
    by (simp_all add: shared_all_def shared_short_def shared_medium_def)
  have b: "engineDeps shared_all (shared_short ! 2) = [''action_001'']"
    by code_simp
  have c: "sequentialDeps shared_short 2 = [''action_002'']"
    by code_simp
  have d: "dependencies (transformRecommendations shared_short shared_all ! 2)
       = [''action_002'', ''action_001'']"
    by code_simp
  from a b c d show ?thesis by blast
qed

section \<open>Properties of the engine request\<close>

lemma absent_js_or: "absent v \<Longrightarrow> js_or v d = d"
  by (auto simp: absent_def js_or_def)

lemma opt_get_None: "opt_get None field = Undefined"
  by (simp add: opt_get_def)

text \<open>
  Claim C3, as amended. For every profile in which an optional field is missing, \<open>null\<close>
  or empty, building the engine request never fails because of that field and puts a fixed
  default in its place: \<open>30-34\<close> for the age, \<open>Unknown\<close> for the location,
  \<open>prefer_not_to_say\<close> for the property value, the vehicle value, the investments, the
  debt and the salary, \<open>false\<close> for the dependents flag; the employment stability is
  always 0.7. The only error of the request construction is the missing user.
\<close>

theorem fetchRecommendations_request_defaults:
  "\<exists>p q. fetchRecommendations_request (Some u) profileData queryData = Inr (p, q)
     \<and> (absent (opt_get profileData ''age'') \<longrightarrow> age_range p = JStr ''30-34'')
     \<and> (absent (opt_get profileData ''location'') \<longrightarrow> location p = JStr ''Unknown'')
     \<and> (absent (opt_get profileData ''propertyValue'') \<longrightarrow> property_value p = JStr ''prefer_not_to_say'')
     \<and> (absent (opt_get profileData ''vehicleValue'') \<longrightarrow> vehicle_value p = JStr ''prefer_not_to_say'')
     \<and> (absent (opt_get profileData ''investments'') \<longrightarrow> investments p = JStr ''prefer_not_to_say'')
     \<and> (absent (opt_get profileData ''debt'') \<longrightarrow> debt p = JStr ''prefer_not_to_say'')
     \<and> (absent (opt_get profileData ''salary'') \<longrightarrow> monthly_salary p = JStr ''prefer_not_to_say'')
     \<and> (absent (opt_get profileData ''has_dependents'') \<longrightarrow> has_dependents p = JBool False)
     \<and> employment_stability p = 7 / 10"
  by (simp add: fetchRecommendations_request_def absent_js_or)

theorem fetchRecommendations_request_defaults_witness:
  "absent (opt_get (Some [''age'' \<mapsto> Null, ''location'' \<mapsto> JStr '''', ''debt'' \<mapsto> JStr ''$5k-$15k'']) ''age'')
   \<and> absent (opt_get (Some [''age'' \<mapsto> Null, ''location'' \<mapsto> JStr '''', ''debt'' \<mapsto> JStr ''$5k-$15k'']) ''location'')
   \<and> absent (opt_get (Some [''age'' \<mapsto> Null, ''location'' \<mapsto> JStr '''', ''debt'' \<mapsto> JStr ''$5k-$15k'']) ''salary'')
   \<and> absent (opt_get (Some [''age'' \<mapsto> Null, ''location'' \<mapsto> JStr '''', ''debt'' \<mapsto> JStr ''$5k-$15k'']) ''has_dependents'')
   \<and> fetchRecommendations_request (Some ''uid-1'')
         (Some [''age'' \<mapsto> Null, ''location'' \<mapsto> JStr '''', ''debt'' \<mapsto> JStr ''$5k-$15k'']) None
       = Inr (\<lparr>age_range = JStr ''30-34'', location = JStr ''Unknown'',
               property_value = JStr ''prefer_not_to_say'', vehicle_value = JStr ''prefer_not_to_say'',
               investments = JStr ''prefer_not_to_say'', debt = JStr ''$5k-$15k'',
               monthly_salary = JStr ''prefer_not_to_say'', has_dependents = JBool False,
               employment_stability = 7 / 10\<rparr>,
              \<lparr>risk_tolerance = JStr ''medium'', current_situation = JStr '''', goal = JStr ''''\<rparr>)"
proof -
  let ?pd = "Some [''age'' \<mapsto> Null, ''location'' \<mapsto> JStr '''', ''debt'' \<mapsto> JStr ''$5k-$15k'']"
  have a: "absent (opt_get ?pd ''age'')" "absent (opt_get ?pd ''location'')"
    "absent (opt_get ?pd ''salary'')" "absent (opt_get ?pd ''has_dependents'')"
    "absent (opt_get ?pd ''propertyValue'')" "absent (opt_get ?pd ''vehicleValue'')"
    "absent (opt_get ?pd ''investments'')"
    by (simp_all add: absent_def opt_get_def)
  have g: "opt_get ?pd ''debt'' = JStr ''$5k-$15k''"
    by (simp add: opt_get_def)
  from fetchRecommendations_request_defaults [of "''uid-1''" ?pd None]
  obtain p q where r: "fetchRecommendations_request (Some ''uid-1'') ?pd None = Inr (p, q)"
    and d: "age_range p = JStr ''30-34''" "location p = JStr ''Unknown''"
    "monthly_salary p = JStr ''prefer_not_to_say''" "has_dependents p = JBool False"
    using a by blast
  have "fetchRecommendations_request (Some ''uid-1'') ?pd None
       = Inr (\<lparr>age_range = JStr ''30-34'', location = JStr ''Unknown'',
               property_value = JStr ''prefer_not_to_say'', vehicle_value = JStr ''prefer_not_to_say'',
               investments = JStr ''prefer_not_to_say'', debt = JStr ''$5k-$15k'',
               monthly_salary = JStr ''prefer_not_to_say'', has_dependents = JBool False,
               employment_stability = 7 / 10\<rparr>,
              \<lparr>risk_tolerance = JStr ''medium'', current_situation = JStr '''', goal = JStr ''''\<rparr>)"
    using r d by (simp add: fetchRecommendations_request_def js_or_def opt_get_def)
  with a show ?thesis by simp
qed

text \<open>
  The claim as first stated gives \<open>prefer_not_to_say\<close> to every absent bucket field. With
  no stored profile at all the age range of the request is \<open>30-34\<close> and its location is
  \<open>Unknown\<close>.
\<close>

theorem fetchRecommendations_request_age_counterexample:
  "absent (opt_get None ''age'') \<and> absent (opt_get None ''location'')
   \<and> fetchRecommendations_request (Some ''uid-1'') None None
       = Inr (\<lparr>age_range = JStr ''30-34'', location = JStr ''Unknown'',
               property_value = JStr ''prefer_not_to_say'', vehicle_value = JStr ''prefer_not_to_say'',
               investments = JStr ''prefer_not_to_say'', debt = JStr ''prefer_not_to_say'',
               monthly_salary = JStr ''prefer_not_to_say'', has_dependents = JBool False,
               employment_stability = 7 / 10\<rparr>,
              \<lparr>risk_tolerance = JStr ''medium'', current_situation = JStr '''', goal = JStr ''''\<rparr>)
   \<and> JStr ''30-34'' \<noteq> JStr ''prefer_not_to_say''
   \<and> JStr ''Unknown'' \<noteq> JStr ''prefer_not_to_say''"
  by (simp add: fetchRecommendations_request_def js_or_def opt_get_def absent_def)

section \<open>Properties of the cycle detection\<close>

lemma first_some_None_iff: "first_some xs = None \<longleftrightarrow> (\<forall>x\<in>set xs. x = None)"
  by (induction xs rule: first_some.induct) auto

lemma first_some_Some: "first_some xs = Some y \<Longrightarrow> Some y \<in> set xs"
  by (induction xs rule: first_some.induct) auto

lemma cycle_edges_suffix: "set (cycle_edges b) \<subseteq> set (cycle_edges (a @ b))"
proof (induction a)
  case Nil
  show ?case by simp
next
  case (Cons x a)
  have "set (cycle_edges (a @ b)) \<subseteq> set (cycle_edges (x # a @ b))"
    by (cases "a @ b") (auto simp: cycle_edges_def)
  with Cons show ?case by auto
qed

lemma cycle_edges_snoc:
  "set (cycle_edges (p @ [v, s])) = insert (v, s) (set (cycle_edges (p @ [v])))"
proof (induction p)
  case Nil
  show ?case by (simp add: cycle_edges_def)
next
  case (Cons x p)
  have a: "cycle_edges (x # p @ [v, s]) = (x, hd (p @ [v, s])) # cycle_edges (p @ [v, s])"
    by (cases p) (auto simp: cycle_edges_def)
  have b: "cycle_edges (x # p @ [v]) = (x, hd (p @ [v])) # cycle_edges (p @ [v])"
    by (cases p) (auto simp: cycle_edges_def)
  have c: "hd (p @ [v, s]) = hd (p @ [v])"
    by (cases p) auto
  from a b c Cons show ?case by auto
qed

lemma dfs_sound:
  "dfs es path v = Some w \<Longrightarrow> set (cycle_edges (path @ [v])) \<subseteq> set es
   \<Longrightarrow> set (cycle_edges w) \<subseteq> set es \<and> cycle_edges w \<noteq> [] \<and> hd w = last w"
proof (induction es path v rule: dfs.induct)
  case (1 es path v)
  show ?case
  proof (cases "v \<in> set path")
    case True
    with "1.prems"(1) have w: "w = dropWhile (\<lambda>x. x \<noteq> v) path @ [v]"
      by (simp add: dfs.simps [of es path v])
    have "path @ [v] = takeWhile (\<lambda>x. x \<noteq> v) path @ w"
      by (simp add: w)
    then have "set (cycle_edges w) \<subseteq> set (cycle_edges (path @ [v]))"
      using cycle_edges_suffix [of w "takeWhile (\<lambda>x. x \<noteq> v) path"] by simp
    moreover from True have ne: "dropWhile (\<lambda>x. x \<noteq> v) path \<noteq> []"
      by (simp add: dropWhile_eq_Nil_conv)
    then have "hd (dropWhile (\<lambda>x. x \<noteq> v) path) = v"
      using hd_dropWhile [of "\<lambda>x. x \<noteq> v" path] by simp
    with ne have "hd w = last w" by (simp add: w)
    moreover from ne have "cycle_edges w \<noteq> []"
      by (cases "dropWhile (\<lambda>x. x \<noteq> v) path") (auto simp: w cycle_edges_def)
    ultimately show ?thesis using "1.prems"(2) by auto
  next
    case False
    with "1.prems"(1) have "first_some (map (dfs es (path @ [v])) (successors es v)) = Some w"
      by (simp add: dfs.simps [of es path v])
    then obtain s where s: "s \<in> set (successors es v)" "dfs es (path @ [v]) s = Some w"
      by (auto dest!: first_some_Some)
    from s(1) have "(v, s) \<in> set es" by (auto simp: successors_def)
    with "1.prems"(2) have "set (cycle_edges ((path @ [v]) @ [s])) \<subseteq> set es"
      using cycle_edges_snoc [of path v s] by simp
    with "1.IH" [OF False s(1) s(2)] show ?thesis by simp
  qed
qed

lemma dfs_None_step:
  assumes "dfs es path v = None"
  shows "v \<notin> set path" and "(v, s) \<in> set es \<Longrightarrow> dfs es (path @ [v]) s = None"
proof -
  from assms show n: "v \<notin> set path"
    by (auto simp: dfs.simps [of es path v] split: if_splits)
  assume "(v, s) \<in> set es"
  then have "s \<in> set (successors es v)" by (force simp: successors_def)
  moreover from assms n have "first_some (map (dfs es (path @ [v])) (successors es v)) = None"
    by (simp add: dfs.simps [of es path v])
  ultimately show "dfs es (path @ [v]) s = None"
    by (auto simp: first_some_None_iff)
qed

lemma dfs_None_trancl:
  assumes "(v, w) \<in> (set es)\<^sup>+" and "dfs es path v = None"
  shows "\<exists>path'. dfs es path' w = None \<and> v \<in> set path'"
  using assms(1)
proof (induction rule: trancl_induct)
  case (base y)
  with assms(2) have "dfs es (path @ [v]) y = None" by (auto dest: dfs_None_step(2))
  then show ?case by (intro exI [of _ "path @ [v]"]) simp
next
  case (step y z)
  then obtain path' where "dfs es path' y = None" "v \<in> set path'" by blast
  with step(2) have "dfs es (path' @ [y]) z = None" by (auto dest: dfs_None_step(2))
  with \<open>v \<in> set path'\<close> show ?case by (intro exI [of _ "path' @ [y]"]) simp
qed

lemma dfs_None_no_cycle:
  assumes "dfs es [] x = None"
  shows "(x, x) \<notin> (set es)\<^sup>+"
proof
  assume "(x, x) \<in> (set es)\<^sup>+"
  from dfs_None_trancl [OF this assms] obtain path' where "dfs es path' x = None" "x \<in> set path'"
    by blast
  then show False by (simp add: dfs.simps [of es path' x])
qed

lemma detect_cycle_None_acyclic:
  assumes "detect_cycle nodes es = None" and "fst ` set es \<subseteq> set nodes"
  shows "acyclic (set es)"
proof (rule acyclicI, rule allI)
  fix x
  show "(x, x) \<notin> (set es)\<^sup>+"
  proof
    assume c: "(x, x) \<in> (set es)\<^sup>+"
    then obtain z where "(x, z) \<in> set es" by (auto dest: tranclD)
    then have "x \<in> fst ` set es" by force
    with assms(2) have "x \<in> set nodes" by auto
    with assms(1) have "dfs es [] x = None"
      by (auto simp: detect_cycle_def first_some_None_iff)
    with c show False using dfs_None_no_cycle [of es x] by blast
  qed
qed

lemma detect_cycle_sound:
  assumes "detect_cycle nodes es = Some w"
  shows "set (cycle_edges w) \<subseteq> set es \<and> cycle_edges w \<noteq> [] \<and> hd w = last w"
proof -
  from assms obtain n where "dfs es [] n = Some w"
    by (auto simp: detect_cycle_def dest!: first_some_Some)
  moreover have "set (cycle_edges ([] @ [n])) \<subseteq> set es"
    by (simp add: cycle_edges_def)
  ultimately show ?thesis by (rule dfs_sound)
qed

section \<open>Properties of the cycle resolution\<close>

lemma weakest_edge_in:
  "cycle_edges w \<noteq> [] \<Longrightarrow> weakest_edge score w \<in> set (cycle_edges w)"
  by (simp add: weakest_edge_def arg_min_list_in)

lemma weakest_edge_least:
  assumes "e \<in> set (cycle_edges w)"
  shows "score (snd (weakest_edge score w)) \<le> score (snd e)"
proof -
  from assms have ne: "cycle_edges w \<noteq> []" by auto
  have "score (snd (weakest_edge score w)) = Min ((\<lambda>e. score (snd e)) ` set (cycle_edges w))"
    unfolding weakest_edge_def using ne by (rule f_arg_min_list_f)
  with assms show ?thesis by simp
qed

lemma break_cycle_removes_one:
  assumes "detect_cycle nodes es = Some w"
  shows "weakest_edge score w \<in> set es"
    and "mset es = add_mset (weakest_edge score w) (mset (break_cycle score w es))"
    and "Suc (length (break_cycle score w es)) = length es"
proof -
  from detect_cycle_sound [OF assms] weakest_edge_in [of w score]
  show m: "weakest_edge score w \<in> set es" by auto
  then show "mset es = add_mset (weakest_edge score w) (mset (break_cycle score w es))"
    by (simp add: break_cycle_def)
  from m show "Suc (length (break_cycle score w es)) = length es"
    using length_pos_if_in_set [of "weakest_edge score w" es]
    by (simp add: break_cycle_def length_remove1)
qed

lemma resolve_cycles_returns:
  "\<exists>es'. resolve_cycles score nodes es = Some es' \<and> detect_cycle nodes es' = None
         \<and> mset es' \<subseteq># mset es"
proof (induction es rule: length_induct)
  case (1 es)
  show ?case
  proof (cases "detect_cycle nodes es")
    case None
    then have "resolve_cycles score nodes es = Some es"
      by (subst resolve_cycles.simps) simp
    with None show ?thesis by simp
  next
    case (Some w)
    let ?es = "break_cycle score w es"
    from break_cycle_removes_one(3) [OF Some, of score] have "length ?es < length es" by simp
    with 1 obtain es' where r: "resolve_cycles score nodes ?es = Some es'"
        "detect_cycle nodes es' = None" "mset es' \<subseteq># mset ?es"
      by blast
    from Some r(1) have "resolve_cycles score nodes es = Some es'"
      by (subst resolve_cycles.simps) simp
    moreover from break_cycle_removes_one(2) [OF Some, of score] have "mset ?es \<subseteq># mset es"
      by simp
    ultimately show ?thesis using r by (meson subset_mset.order_trans)
  qed
qed

section \<open>Properties of the topological order\<close>

lemma pick_best_None_iff: "pick_best score xs = None \<longleftrightarrow> xs = []"
  by (induction xs) (auto split: option.splits)

lemma pick_best_max:
  "pick_best score xs = Some n \<Longrightarrow> x \<in> set xs \<Longrightarrow> score x \<le> score n"
  by (induction xs arbitrary: n) (auto split: option.splits if_splits simp: pick_best_None_iff)

lemma topo_order_mset:
  "topo_order score es remaining = Some order \<Longrightarrow> mset order = mset remaining"
proof (induction score es remaining arbitrary: order rule: topo_order.induct)
  case (1 score es remaining)
  show ?case
  proof (cases "remaining = []")
    case True
    with "1.prems" show ?thesis by (simp add: topo_order.simps [of score es "[]"])
  next
    case False
    with "1.prems" obtain n order' where
      n: "pick_best score (filter (ready es remaining) remaining) = Some n"
      and o: "topo_order score es (remove1 n remaining) = Some order'"
      and e: "order = n # order'"
      by (auto simp: topo_order.simps [of score es remaining] split: option.splits)
    from n have "n \<in> set remaining" by (auto dest: pick_best_mem)
    moreover from "1.IH" [OF False n o] have "mset order' = mset (remove1 n remaining)" .
    ultimately show ?thesis using e by simp
  qed
qed

lemma topo_order_respects:
  "topo_order score es remaining = Some order \<Longrightarrow> distinct remaining \<Longrightarrow> (u, v) \<in> set es
   \<Longrightarrow> u \<in> set remaining \<Longrightarrow> v \<in> set remaining \<Longrightarrow> precedes u v order"
proof (induction score es remaining arbitrary: order rule: topo_order.induct)
  case (1 score es remaining)
  from "1.prems"(4) have ne: "remaining \<noteq> []" by auto
  with "1.prems"(1) obtain n order' where
    n: "pick_best score (filter (ready es remaining) remaining) = Some n"
    and o: "topo_order score es (remove1 n remaining) = Some order'"
    and e: "order = n # order'"
    by (auto simp: topo_order.simps [of score es remaining] split: option.splits)
  from n have r: "n \<in> set remaining" "ready es remaining n" by (auto dest: pick_best_mem)
  from r(2) "1.prems"(3,4) have nv: "n \<noteq> v"
    by (auto simp: ready_def list_ex_iff)
  from topo_order_mset [OF o] have s: "set order' = set (remove1 n remaining)"
    by (metis set_mset_mset)
  show ?case
  proof (cases "n = u")
    case True
    from nv "1.prems"(5) have "v \<in> set (remove1 n remaining)" by simp
    with s e True show ?thesis by simp
  next
    case False
    from "1.prems"(2) have "distinct (remove1 n remaining)" by simp
    moreover from False nv "1.prems"(4,5) have "u \<in> set (remove1 n remaining)" "v \<in> set (remove1 n remaining)"
      by simp_all
    ultimately have "precedes u v order'"
      using "1.IH" [OF ne n o] "1.prems"(3) by blast
    with e False show ?thesis by simp
  qed
qed

lemma ready_exists:
  assumes "acyclic (set es)" and "remaining \<noteq> []"
  shows "\<exists>n\<in>set remaining. ready es remaining n"
proof -
  from assms(1) have "wf (set es)" by (simp add: finite_acyclic_wf)
  moreover from assms(2) obtain x where "x \<in> set remaining" by (cases remaining) auto
  ultimately have "\<exists>z\<in>set remaining. \<forall>y. (y, z) \<in> set es \<longrightarrow> y \<notin> set remaining"
    by (metis wfE_min)
  then obtain z where "z \<in> set remaining" "\<forall>y. (y, z) \<in> set es \<longrightarrow> y \<notin> set remaining"
    by blast
  then have "z \<in> set remaining \<and> ready es remaining z"
    by (force simp: ready_def list_ex_iff)
  then show ?thesis by blast
qed

lemma topo_order_succeeds:
  "acyclic (set es) \<Longrightarrow> \<exists>order. topo_order score es remaining = Some order"
proof (induction remaining rule: length_induct)
  case (1 remaining)
  show ?case
  proof (cases "remaining = []")
    case True
    then show ?thesis by (simp add: topo_order.simps [of score es "[]"])
  next
    case False
    from ready_exists [OF "1.prems" False] have "filter (ready es remaining) remaining \<noteq> []"
      by (auto simp: filter_empty_conv)
    then obtain n where n: "pick_best score (filter (ready es remaining) remaining) = Some n"
      using pick_best_None_iff [of score "filter (ready es remaining) remaining"] by auto
    then have "n \<in> set remaining" by (auto dest: pick_best_mem)
    then have "length (remove1 n remaining) < length remaining"
      using length_pos_if_in_set [of n remaining] by (simp add: length_remove1)
    with 1 obtain order' where "topo_order score es (remove1 n remaining) = Some order'"
      by blast
    with n False show ?thesis by (simp add: topo_order.simps [of score es remaining])
  qed
qed

lemma build_edges_bounds:
  "(u, v) \<in> set (build_edges cands) \<Longrightarrow> u < length cands \<and> v < length cands"
  by (auto simp: build_edges_def in_set_enumerate_eq split: option.splits dest!: find_Some_holds [OF sym])

section \<open>Claims about the engine\<close>

lemma total_score_uniform:
  assumes "weights_sum (scoring_weights e) = 1"
  shows "total_score e \<lparr>base_priority = s, risk_alignment = s, goal_alignment = s,
                         profile_fit = s, urgency = s, impact_potential = s,
                         feasibility = s, priority_area_match = s\<rparr> = s"
proof -
  have "total_score e \<lparr>base_priority = s, risk_alignment = s, goal_alignment = s,
                         profile_fit = s, urgency = s, impact_potential = s,
                         feasibility = s, priority_area_match = s\<rparr>
          = weights_sum (scoring_weights e) * s"
    by (simp add: total_score_def weights_sum_def Let_def algebra_simps)
  with assms show ?thesis by simp
qed

text \<open>
  Claim C4. The eight scoring weights of an engine always sum to 1.0: the sum is validated
  when the engine is constructed, every engine that construction returns carries weights
  of sum 1, and a weight set of any other sum (0.97, say) is refused by the construction
  itself. Scoring a request takes an engine that exists already and has no error of its
  own; with the weights of a constructed engine, an action whose eight sub-scores are all
  \<open>s\<close> has the total \<open>s\<close>.
\<close>

theorem construct_engine_validates_weights:
  "(\<forall>e. construct_engine w = Inr e \<longrightarrow>
         scoring_weights e = w \<and> weights_sum (scoring_weights e) = 1
       \<and> total_score e \<lparr>base_priority = s, risk_alignment = s, goal_alignment = s,
                            profile_fit = s, urgency = s, impact_potential = s,
                            feasibility = s, priority_area_match = s\<rparr> = s)
   \<and> (weights_sum w = 1 \<longrightarrow> construct_engine w = Inr \<lparr>scoring_weights = w\<rparr>)
   \<and> (weights_sum w \<noteq> 1 \<longrightarrow> construct_engine w = Inl InvalidWeights)"
proof (intro conjI allI impI)
  fix e
  assume "construct_engine w = Inr e"
  then have e: "weights_sum w = 1" "e = \<lparr>scoring_weights = w\<rparr>"
    by (auto simp: construct_engine_def split: if_splits)
  then show "scoring_weights e = w" and 1: "weights_sum (scoring_weights e) = 1"
    by simp_all
  from 1 show "total_score e \<lparr>base_priority = s, risk_alignment = s, goal_alignment = s,
                            profile_fit = s, urgency = s, impact_potential = s,
                            feasibility = s, priority_area_match = s\<rparr> = s"
    by (rule total_score_uniform)
next
  assume "weights_sum w = 1"
  then show "construct_engine w = Inr \<lparr>scoring_weights = w\<rparr>"
    by (simp add: construct_engine_def)
next
  assume "weights_sum w \<noteq> 1"
  then show "construct_engine w = Inl InvalidWeights"
    by (simp add: construct_engine_def)
qed

theorem construct_engine_validates_weights_witness:
  "weights_sum \<lparr>base_priority_weight = 15 / 100, risk_tolerance_weight = 20 / 100,
                 goal_alignment_weight = 25 / 100, profile_fit_weight = 15 / 100,
                 urgency_weight = 10 / 100, impact_weight = 10 / 100,
                 feasibility_weight = 5 / 100, priority_area_weight = 0\<rparr> = 1
   \<and> construct_engine \<lparr>base_priority_weight = 15 / 100, risk_tolerance_weight = 20 / 100,
                 goal_alignment_weight = 25 / 100, profile_fit_weight = 15 / 100,
                 urgency_weight = 10 / 100, impact_weight = 10 / 100,
                 feasibility_weight = 5 / 100, priority_area_weight = 0\<rparr>
       = Inr \<lparr>scoring_weights = \<lparr>base_priority_weight = 15 / 100, risk_tolerance_weight = 20 / 100,
                 goal_alignment_weight = 25 / 100, profile_fit_weight = 15 / 100,
                 urgency_weight = 10 / 100, impact_weight = 10 / 100,
                 feasibility_weight = 5 / 100, priority_area_weight = 0\<rparr>\<rparr>
   \<and> weights_sum \<lparr>base_priority_weight = 15 / 100, risk_tolerance_weight = 20 / 100,
                 goal_alignment_weight = 25 / 100, profile_fit_weight = 15 / 100,
                 urgency_weight = 10 / 100, impact_weight = 7 / 100,
                 feasibility_weight = 5 / 100, priority_area_weight = 0\<rparr> = 97 / 100
   \<and> construct_engine \<lparr>base_priority_weight = 15 / 100, risk_tolerance_weight = 20 / 100,
                 goal_alignment_weight = 25 / 100, profile_fit_weight = 15 / 100,
                 urgency_weight = 10 / 100, impact_weight = 7 / 100,
                 feasibility_weight = 5 / 100, priority_area_weight = 0\<rparr>
       = Inl InvalidWeights"
proof -
  let ?good = "\<lparr>base_priority_weight = 15 / 100, risk_tolerance_weight = 20 / 100,
                 goal_alignment_weight = 25 / 100, profile_fit_weight = 15 / 100,
                 urgency_weight = 10 / 100, impact_weight = 10 / 100,
                 feasibility_weight = 5 / 100, priority_area_weight = 0\<rparr>"
  let ?bad = "\<lparr>base_priority_weight = 15 / 100, risk_tolerance_weight = 20 / 100,
                 goal_alignment_weight = 25 / 100, profile_fit_weight = 15 / 100,
                 urgency_weight = 10 / 100, impact_weight = 7 / 100,
                 feasibility_weight = 5 / 100, priority_area_weight = 0\<rparr>"
  have g: "weights_sum ?good = 1"
    by (simp add: weights_sum_def)
  have b: "weights_sum ?bad = 97 / 100"
    by (simp add: weights_sum_def)
  then have b': "weights_sum ?bad \<noteq> 1"
    by simp
  from construct_engine_validates_weights [of ?good 50] g
  have r1: "construct_engine ?good = Inr \<lparr>scoring_weights = ?good\<rparr>"
    by blast
  from construct_engine_validates_weights [of ?bad 50] b'
  have r2: "construct_engine ?bad = Inl InvalidWeights"
    by blast
  from g b r1 r2 show ?thesis by blast
qed

text \<open>
  Claim C7. The cycle-resolution loop terminates for every input graph: it returns a graph
  in which the detection finds no cycle. Each break removes exactly one edge, an edge of
  the detected cycle whose head node has the lowest total score among the heads of the
  cycle's edges, so that every iteration has one edge fewer than the one before.
\<close>

theorem resolve_cycles_terminates:
  "(\<exists>es'. resolve_cycles score nodes es = Some es' \<and> detect_cycle nodes es' = None
          \<and> length es' \<le> length es)
   \<and> (\<forall>w. detect_cycle nodes es = Some w \<longrightarrow>
          hd w = last w \<and> set (cycle_edges w) \<subseteq> set es
        \<and> weakest_edge score w \<in> set (cycle_edges w)
        \<and> (\<forall>e\<in>set (cycle_edges w). score (snd (weakest_edge score w)) \<le> score (snd e))
        \<and> mset es = add_mset (weakest_edge score w) (mset (break_cycle score w es))
        \<and> Suc (length (break_cycle score w es)) = length es)"
proof (intro conjI allI impI ballI)
  from resolve_cycles_returns [of score nodes es]
  obtain es' where "resolve_cycles score nodes es = Some es'" "detect_cycle nodes es' = None"
      "mset es' \<subseteq># mset es"
    by blast
  moreover from this(3) have "length es' \<le> length es"
    using size_mset_mono [of "mset es'" "mset es"] by simp
  ultimately show "\<exists>es'. resolve_cycles score nodes es = Some es' \<and> detect_cycle nodes es' = None
          \<and> length es' \<le> length es"
    by blast
next
  fix w
  assume d: "detect_cycle nodes es = Some w"
  from detect_cycle_sound [OF d]
  show "hd w = last w" and "set (cycle_edges w) \<subseteq> set es"
    by simp_all
  from detect_cycle_sound [OF d] show "weakest_edge score w \<in> set (cycle_edges w)"
    by (simp add: weakest_edge_in)
  from d show "mset es = add_mset (weakest_edge score w) (mset (break_cycle score w es))"
    by (rule break_cycle_removes_one(2))
  from d show "Suc (length (break_cycle score w es)) = length es"
    by (rule break_cycle_removes_one(3))
next
  fix w :: "'a list" and e :: "'a edge"
  assume "detect_cycle nodes es = Some w" and "e \<in> set (cycle_edges w)"
  from this(2) show "score (snd (weakest_edge score w)) \<le> score (snd e)"
    by (rule weakest_edge_least)
qed

theorem resolve_cycles_terminates_witness:
  "detect_cycle [0..<4] (build_edges sample_cands) = Some [0, 1, 0]
   \<and> build_edges sample_cands = [(1, 0), (0, 1), (0, 2)]
   \<and> weakest_edge (\<lambda>n. sa_total (sample_cands ! n)) [0, 1, 0] = (0, 1)
   \<and> break_cycle (\<lambda>n. sa_total (sample_cands ! n)) [0, 1, 0] (build_edges sample_cands) = [(1, 0), (0, 2)]
   \<and> Suc (length (break_cycle (\<lambda>n. sa_total (sample_cands ! n)) [0, 1, 0] (build_edges sample_cands)))
       = length (build_edges sample_cands)
   \<and> resolve_cycles (\<lambda>n. sa_total (sample_cands ! n)) [0..<4] (build_edges sample_cands)
       = Some [(1, 0), (0, 2)]"
proof -
  let ?score = "\<lambda>n. sa_total (sample_cands ! n)"
  have d: "detect_cycle [0..<4] (build_edges sample_cands) = Some [0, 1, 0]"
    by code_simp
  have b: "build_edges sample_cands = [(1, 0), (0, 1), (0, 2)]"
    by code_simp
  have k: "weakest_edge ?score [0, 1, 0] = (0, 1)"
    by code_simp
  have c: "break_cycle ?score [0, 1, 0] (build_edges sample_cands) = [(1, 0), (0, 2)]"
    by code_simp
  have r: "resolve_cycles ?score [0..<4] (build_edges sample_cands) = Some [(1, 0), (0, 2)]"
    by code_simp
  from resolve_cycles_terminates [of ?score "[0..<4]" "build_edges sample_cands"] d
  have "Suc (length (break_cycle ?score [0, 1, 0] (build_edges sample_cands)))
          = length (build_edges sample_cands)"
    by blast
  with d b k c r show ?thesis by blast
qed

lemma build_dag_result:
  "\<exists>es. build_dag cands = Some es \<and> detect_cycle [0..<length cands] es = None
        \<and> set es \<subseteq> set (build_edges cands) \<and> acyclic (set es)"
proof -
  from resolve_cycles_returns [of "\<lambda>n. sa_total (cands ! n)" "[0..<length cands]" "build_edges cands"]
  obtain es where es: "build_dag cands = Some es" "detect_cycle [0..<length cands] es = None"
      "mset es \<subseteq># mset (build_edges cands)"
    by (auto simp: build_dag_def)
  from es(3) have sub: "set es \<subseteq> set (build_edges cands)"
    using set_mset_mono [of "mset es" "mset (build_edges cands)"] by simp
  then have "fst ` set es \<subseteq> set [0..<length cands]"
    by (auto dest!: subsetD build_edges_bounds)
  with es(2) have "acyclic (set es)"
    by (rule detect_cycle_None_acyclic)
  with es sub show ?thesis by blast
qed

text \<open>
  Claim C5. For every candidate set the graph that cycle resolution produces has no cycle,
  and the topological sort of that graph succeeds and places every node, once.
\<close>

theorem build_dag_acyclic:
  "\<exists>es order. build_dag cands = Some es
     \<and> acyclic (set es)
     \<and> detect_cycle [0..<length cands] es = None
     \<and> topo_order (\<lambda>n. sa_total (cands ! n)) es [0..<length cands] = Some order
     \<and> mset order = mset [0..<length cands]"
proof -
  from build_dag_result [of cands] obtain es where es: "build_dag cands = Some es"
      "detect_cycle [0..<length cands] es = None" "acyclic (set es)"
    by blast
  from topo_order_succeeds [OF es(3), of "\<lambda>n. sa_total (cands ! n)" "[0..<length cands]"]
  obtain order where o: "topo_order (\<lambda>n. sa_total (cands ! n)) es [0..<length cands] = Some order"
    by blast
  from topo_order_mset [OF o] es o show ?thesis by blast
qed

theorem build_dag_acyclic_witness:
  "build_dag sample_cands = Some [(1, 0), (0, 2)]
   \<and> acyclic (set [(1::nat, 0::nat), (0, 2)])
   \<and> topo_order (\<lambda>n. sa_total (sample_cands ! n)) [(1, 0), (0, 2)] [0..<length sample_cands]
       = Some [3, 1, 0, 2]"
proof -
  have b: "build_dag sample_cands = Some [(1, 0), (0, 2)]"
    by code_simp
  have t: "topo_order (\<lambda>n. sa_total (sample_cands ! n)) [(1, 0), (0, 2)] [0..<length sample_cands]
       = Some [3, 1, 0, 2]"
    by code_simp
  from build_dag_acyclic [of sample_cands] b have "acyclic (set [(1::nat, 0::nat), (0, 2)])"
    by auto
  with b t show ?thesis by blast
qed

end
